theory Spec2Isabelle
  imports Main "HOL-Library.Sublist"
begin

section \<open>Strings and characters\<close>

text \<open>
  The two Python modules \<^verbatim>\<open>genre_script.py\<close> and \<^verbatim>\<open>rock_network.py\<close> work on
  \<^verbatim>\<open>str\<close> values. A Python string is modelled as a \<^typ>\<open>string\<close>, each
  \<^typ>\<open>char\<close> standing for one code point in the range 0..255. Inside that range
  the whitespace class of \<^verbatim>\<open>str.strip\<close>, \<^verbatim>\<open>str.split\<close> and of the regular
  expression escape for whitespace is the set below, \<^verbatim>\<open>str.lower\<close> maps the letters
  A..Z and the Latin-1 capitals 0xC0..0xDE (without 0xD7) to the code point 32 above, and
  a pattern letter compiled with \<^verbatim>\<open>re.IGNORECASE\<close> matches exactly the characters
  that \<^verbatim>\<open>str.lower\<close> sends to it. The bullet U+2022 of the delimiter class in
  \<^verbatim>\<open>parse_genre_field\<close> lies outside the range and so never occurs in a modelled text.
\<close>

definition is_space :: "char \<Rightarrow> bool" where
  "is_space c \<longleftrightarrow> c \<in> set [CHR 0x09, CHR 0x0A, CHR 0x0B, CHR 0x0C, CHR 0x0D,
     CHR 0x1C, CHR 0x1D, CHR 0x1E, CHR 0x1F, CHR 0x20, CHR 0x85, CHR 0xA0]"

definition lstrip :: "string \<Rightarrow> string" where
  "lstrip s = dropWhile is_space s"

definition rstrip :: "string \<Rightarrow> string" where
  "rstrip s = rev (dropWhile is_space (rev s))"

definition strip :: "string \<Rightarrow> string" where
  "strip s = rstrip (lstrip s)"

definition upper_chars :: string where
  "upper_chars = ''ABCDEFGHIJKLMNOPQRSTUVWXYZ'' @
     [CHR 0xC0, CHR 0xC1, CHR 0xC2, CHR 0xC3, CHR 0xC4, CHR 0xC5, CHR 0xC6, CHR 0xC7,
      CHR 0xC8, CHR 0xC9, CHR 0xCA, CHR 0xCB, CHR 0xCC, CHR 0xCD, CHR 0xCE, CHR 0xCF,
      CHR 0xD0, CHR 0xD1, CHR 0xD2, CHR 0xD3, CHR 0xD4, CHR 0xD5, CHR 0xD6,
      CHR 0xD8, CHR 0xD9, CHR 0xDA, CHR 0xDB, CHR 0xDC, CHR 0xDD, CHR 0xDE]"

definition lower_chars :: string where
  "lower_chars = ''abcdefghijklmnopqrstuvwxyz'' @
     [CHR 0xE0, CHR 0xE1, CHR 0xE2, CHR 0xE3, CHR 0xE4, CHR 0xE5, CHR 0xE6, CHR 0xE7,
      CHR 0xE8, CHR 0xE9, CHR 0xEA, CHR 0xEB, CHR 0xEC, CHR 0xED, CHR 0xEE, CHR 0xEF,
      CHR 0xF0, CHR 0xF1, CHR 0xF2, CHR 0xF3, CHR 0xF4, CHR 0xF5, CHR 0xF6,
      CHR 0xF8, CHR 0xF9, CHR 0xFA, CHR 0xFB, CHR 0xFC, CHR 0xFD, CHR 0xFE]"

definition to_lower :: "char \<Rightarrow> char" where
  "to_lower c = (case map_of (zip upper_chars lower_chars) c of Some d \<Rightarrow> d | None \<Rightarrow> c)"

definition lower :: "string \<Rightarrow> string" where
  "lower s = map to_lower s"

text \<open>
  \<open>ci_prefix lit s\<close>: the text \<open>s\<close> starts with the lower-case literal \<open>lit\<close>, letter
  case ignored.
\<close>

fun ci_prefix :: "string \<Rightarrow> string \<Rightarrow> bool" where
  "ci_prefix [] s = True"
| "ci_prefix (l # ls) [] = False"
| "ci_prefix (l # ls) (c # cs) = (if to_lower c = l then ci_prefix ls cs else False)"

text \<open>
  \<open>find_after lit s\<close> is what follows the first occurrence of \<open>lit\<close> in \<open>s\<close>;
  \<open>first_suffix p s\<close> is the text from the leftmost position at which \<open>p\<close> holds
  (the start of the match of \<^verbatim>\<open>re.search\<close>); \<open>contains\<close> is Python's \<^verbatim>\<open>in\<close> on
  strings.
\<close>

fun find_after :: "string \<Rightarrow> string \<Rightarrow> string option" where
  "find_after lit [] = (if lit = [] then Some [] else None)"
| "find_after lit (x # xs) =
     (if prefix lit (x # xs) then Some (drop (length lit) (x # xs)) else find_after lit xs)"

fun first_suffix :: "(string \<Rightarrow> bool) \<Rightarrow> string \<Rightarrow> string option" where
  "first_suffix p [] = (if p [] then Some [] else None)"
| "first_suffix p (x # xs) = (if p (x # xs) then Some (x # xs) else first_suffix p xs)"

definition contains :: "string \<Rightarrow> string \<Rightarrow> bool" where
  "contains lit s \<longleftrightarrow> first_suffix (prefix lit) s \<noteq> None"

text \<open>
  \<^verbatim>\<open>re.sub\<close> and \<^verbatim>\<open>re.findall\<close> scan the text from left to right. The argument
  \<open>m\<close> says whether the pattern matches at the start of a text and, if so, gives the
  replacement (or the captured group) and the text after the match. Every pattern of the
  two modules consumes at least one character, which is what the length test records; where
  the pattern does not match, the character is copied and the scan moves on by one.
\<close>

fun re_sub :: "(string \<Rightarrow> (string \<times> string) option) \<Rightarrow> string \<Rightarrow> string" where
  "re_sub m [] = []"
| "re_sub m (x # xs) =
     (case m (x # xs) of
        Some (repl, rest) \<Rightarrow>
          if length rest < length (x # xs) then repl @ re_sub m rest else x # re_sub m xs
      | None \<Rightarrow> x # re_sub m xs)"


text \<open>
  \<open>split_chars p\<close> splits at every character of the class \<open>p\<close> (\<^verbatim>\<open>str.split(sep)\<close>
  and \<^verbatim>\<open>re.split\<close> on a character class), \<open>split_runs p\<close> at every maximal run of
  such characters (\<^verbatim>\<open>re.split\<close> on a repeated class). \<open>py_split\<close> is
  \<^verbatim>\<open>str.split()\<close> without argument and \<open>join\<close> is \<^verbatim>\<open>sep.join\<close>.
\<close>

fun split_chars :: "(char \<Rightarrow> bool) \<Rightarrow> string \<Rightarrow> string list" where
  "split_chars p [] = [[]]"
| "split_chars p (c # cs) =
     (if p c then [] # split_chars p cs
      else (case split_chars p cs of w # ws \<Rightarrow> (c # w) # ws | [] \<Rightarrow> [[c]]))"

function split_runs :: "(char \<Rightarrow> bool) \<Rightarrow> string \<Rightarrow> string list" where
  "split_runs p [] = [[]]"
| "split_runs p (c # cs) =
     (if p c then [] # split_runs p (dropWhile p cs)
      else (case split_runs p cs of w # ws \<Rightarrow> (c # w) # ws | [] \<Rightarrow> [[c]]))"
  by pat_completeness auto
termination
  by (relation "measure (\<lambda>(p, s). length s)") (auto simp: less_Suc_eq_le length_dropWhile_le)

definition py_split :: "string \<Rightarrow> string list" where
  "py_split s = filter (\<lambda>w. w \<noteq> []) (split_chars is_space s)"

fun join :: "string \<Rightarrow> string list \<Rightarrow> string" where
  "join sep [] = []"
| "join sep [w] = w"
| "join sep (w # v # ws) = w @ sep @ join sep (v # ws)"

section \<open>The regular expressions of genre\_script.py\<close>

text \<open>
  Each pattern is written as a function on the text at the position where a match is
  tried. The patterns are deterministic: a negated character class is always followed by
  a character outside the class, so the greedy run is the only length that can match.

  HTML comments: the four characters that open a comment, then the shortest text up to
  the three characters that close one (\<^verbatim>\<open>re.DOTALL\<close>, non-greedy).
\<close>

definition comment_at :: "string \<Rightarrow> (string \<times> string) option" where
  "comment_at s =
     (if prefix ''<!--'' s then
        (case find_after ''-->'' (drop 4 s) of Some rest \<Rightarrow> Some ([], rest) | None \<Rightarrow> None)
      else None)"

text \<open>
  Reference tags: an opening tag with its body up to the first closing tag; a
  self-closing tag; a lone opening tag.
\<close>

definition ref_pair_at :: "string \<Rightarrow> (string \<times> string) option" where
  "ref_pair_at s =
     (if prefix ''<ref'' s then
        (case dropWhile (\<lambda>c. c \<noteq> CHR ''>'') (drop 4 s) of
           [] \<Rightarrow> None
         | _ # body \<Rightarrow>
             (case find_after ''</ref>'' body of Some rest \<Rightarrow> Some ([], rest) | None \<Rightarrow> None))
      else None)"

definition ref_self_at :: "string \<Rightarrow> (string \<times> string) option" where
  "ref_self_at s =
     (if prefix ''<ref'' s then
        let attrs = takeWhile (\<lambda>c. c \<noteq> CHR ''>'') (drop 4 s);
            after = dropWhile (\<lambda>c. c \<noteq> CHR ''>'') (drop 4 s)
        in if after \<noteq> [] \<and> attrs \<noteq> [] \<and> last attrs = CHR ''/'' then Some ([], drop 1 after)
           else None
      else None)"

definition ref_open_at :: "string \<Rightarrow> (string \<times> string) option" where
  "ref_open_at s =
     (if prefix ''<ref'' s then
        (case dropWhile (\<lambda>c. c \<noteq> CHR ''>'') (drop 4 s) of
           [] \<Rightarrow> None
         | _ # rest \<Rightarrow> Some ([], rest))
      else None)"

text \<open>URLs: a scheme or the www prefix, then at least one character that is not whitespace.\<close>

definition http_at :: "string \<Rightarrow> (string \<times> string) option" where
  "http_at s =
     (if prefix ''http'' s then
        let r = drop 4 s;
            r' = (if prefix ''s'' r then drop 1 r else r)
        in if prefix ''://'' r' \<and> takeWhile (\<lambda>c. \<not> is_space c) (drop 3 r') \<noteq> []
           then Some ([], dropWhile (\<lambda>c. \<not> is_space c) (drop 3 r'))
           else None
      else None)"

definition www_at :: "string \<Rightarrow> (string \<times> string) option" where
  "www_at s =
     (if prefix ''www.'' s \<and> takeWhile (\<lambda>c. \<not> is_space c) (drop 4 s) \<noteq> []
      then Some ([], dropWhile (\<lambda>c. \<not> is_space c) (drop 4 s))
      else None)"

text \<open>
  Wiki links, replaced by their group: two opening brackets, optionally a target up to
  a bar, then the captured text (at least one character, none of them a closing bracket)
  and two closing brackets. When the attempt with the optional target fails, the
  regular expression engine retries without it.
\<close>

definition link_tail :: "string \<Rightarrow> (string \<times> string) option" where
  "link_tail q =
     (let g = takeWhile (\<lambda>c. c \<noteq> CHR '']'') q;
          after = dropWhile (\<lambda>c. c \<noteq> CHR '']'') q
      in if g \<noteq> [] \<and> prefix '']]'' after then Some (g, drop 2 after) else None)"

definition wikilink_at :: "string \<Rightarrow> (string \<times> string) option" where
  "wikilink_at s =
     (if prefix ''[['' s then
        let r = drop 2 s;
            after_target = dropWhile (\<lambda>c. c \<noteq> CHR ''|'' \<and> c \<noteq> CHR '']'') r
        in (case (if prefix ''|'' after_target then link_tail (drop 1 after_target) else None) of
              Some res \<Rightarrow> Some res
            | None \<Rightarrow> link_tail r)
      else None)"

text \<open>The nowrap template (case ignored), replaced by its content.\<close>

definition nowrap_at :: "string \<Rightarrow> (string \<times> string) option" where
  "nowrap_at s =
     (if ci_prefix ''{{nowrap|'' s then
        let q = drop 9 s;
            g = takeWhile (\<lambda>c. c \<noteq> CHR ''}'') q;
            after = dropWhile (\<lambda>c. c \<noteq> CHR ''}'') q
        in if g \<noteq> [] \<and> prefix ''}}'' after then Some (g, drop 2 after) else None
      else None)"

text \<open>A parenthesis up to the first closing one; a line-break tag, replaced by a comma.\<close>

definition paren_at :: "string \<Rightarrow> (string \<times> string) option" where
  "paren_at s =
     (if prefix ''('' s then
        (case dropWhile (\<lambda>c. c \<noteq> CHR '')'') (drop 1 s) of
           [] \<Rightarrow> None
         | _ # rest \<Rightarrow> Some ([], rest))
      else None)"

definition br_at :: "string \<Rightarrow> (string \<times> string) option" where
  "br_at s =
     (if ci_prefix ''<br'' s then
        let a = dropWhile is_space (drop 3 s);
            a' = (if prefix ''/'' a then drop 1 a else a)
        in if prefix ''>'' a' then Some ('','', drop 1 a') else None
      else None)"

text \<open>
  Lines 91 and 92 (and again 122 and 123): a pattern anchored at the start of the text
  removes two opening braces with everything up to and including the first bar (all of
  the text when there is no bar); a pattern anchored at the end removes two closing
  braces that end the text or stand before its final newline.
\<close>

definition strip_template_prefix :: "string \<Rightarrow> string" where
  "strip_template_prefix s =
     (if prefix ''{{'' s then drop 1 (dropWhile (\<lambda>c. c \<noteq> CHR ''|'') (drop 2 s)) else s)"

definition strip_closing_braces :: "string \<Rightarrow> string" where
  "strip_closing_braces s =
     (if suffix ''}}'' s then take (length s - 2) s
      else if suffix ''}}\<newline>'' s then take (length s - 3) s @ ''\<newline>''
      else s)"

text \<open>Lines 98 and 100: the search for a list template, letter case ignored.\<close>

definition list_template_names :: "string list" where
  "list_template_names = [''flatlist'', ''hlist'', ''flat list'', ''unbulleted list'', ''plainlist'']"

definition list_template_at :: "string \<Rightarrow> bool" where
  "list_template_at s \<longleftrightarrow> list_ex (\<lambda>name. ci_prefix (''{{'' @ name) s) list_template_names"

text \<open>
  Line 141: an opening parenthesis, then on the same line one of the era words and,
  after it, a closing parenthesis.
\<close>

definition era_words :: "string list" where
  "era_words = [''early'', ''later'', ''late'', ''mid'']"

fun era_then_close :: "string \<Rightarrow> bool" where
  "era_then_close [] = False"
| "era_then_close (x # xs) =
     (list_ex (\<lambda>w. ci_prefix w (x # xs) \<and> CHR '')'' \<in> set (drop (length w) (x # xs))) era_words
      \<or> era_then_close xs)"

definition era_paren_at :: "string \<Rightarrow> bool" where
  "era_paren_at s \<longleftrightarrow>
     prefix ''('' s \<and> era_then_close (takeWhile (\<lambda>c. c \<noteq> CHR 0x0A) (drop 1 s))"

section \<open>genre\_script.py\<close>

subsection \<open>normalize\_genre (lines 6-49)\<close>

definition rock_variations :: "(string \<times> string) list" where
  "rock_variations =
     [(''rock '' @ [CHR 0x27] @ ''n'' @ [CHR 0x27] @ '' roll'', ''rock and roll''),
      (''rock n roll'', ''rock and roll''),
      (''rock'' @ [CHR 0x27] @ ''n'' @ [CHR 0x27] @ ''roll'', ''rock and roll''),
      (''rock & roll'', ''rock and roll''),
      (''rock n'' @ [CHR 0x27] @ '' roll'', ''rock and roll'')]"

definition standardize_rock :: "string \<Rightarrow> string" where
  "standardize_rock genre =
     foldl (\<lambda>g (variant, standard). if g = variant then standard else g) genre rock_variations"

definition normalize_genre :: "string \<Rightarrow> string" where
  "normalize_genre genre =
     (let g = strip (lower genre);
          g = re_sub wikilink_at g;
          g = filter (\<lambda>c. c \<noteq> CHR ''['' \<and> c \<noteq> CHR '']'') g;
          g = re_sub ref_pair_at g;
          g = re_sub ref_self_at g;
          g = re_sub ref_open_at g;
          g = re_sub comment_at g;
          g = re_sub http_at g;
          g = re_sub www_at g;
          g = filter (\<lambda>c. c \<notin> set [CHR ''{'', CHR ''}'', CHR 0x22, CHR 0x27, CHR 0x60]) g;
          g = standardize_rock g;
          g = join '' '' (py_split g)
      in strip g)"

subsection \<open>extract\_nested\_content (lines 51-74) and the depth scan\<close>

text \<open>
  The loops of \<^verbatim>\<open>extract_nested_content\<close> (lines 65-72), of
  \<^verbatim>\<open>extract_genres_from_infobox\<close> (lines 218-225) and of \<^verbatim>\<open>parse_genre_field\<close>
  (lines 109-116) are the same scan: the depth goes up on an opening character, down on
  a closing one, and the scan stops at the first closing character that brings the depth
  to zero. \<open>depth_scan\<close> returns \<open>Some (i + 1)\<close> for the index \<open>i\<close> at which the loop
  breaks, counted from the start of the scanned text, and \<open>None\<close> when the loop runs
  off the end of the text.
\<close>

fun depth_scan :: "char \<Rightarrow> char \<Rightarrow> int \<Rightarrow> string \<Rightarrow> nat option" where
  "depth_scan opn cls d [] = None"
| "depth_scan opn cls d (c # cs) =
     (if c = opn then map_option Suc (depth_scan opn cls (d + 1) cs)
      else if c = cls then
        (if d - 1 = 0 then Some 1 else map_option Suc (depth_scan opn cls (d - 1) cs))
      else map_option Suc (depth_scan opn cls d cs))"


subsection \<open>parse\_genre\_field (lines 76-197)\<close>

text \<open>Lines 82-95: the clean-up applied to the field text before the dispatch.\<close>

definition clean_field :: "string \<Rightarrow> string" where
  "clean_field genre_text =
     (let t = re_sub comment_at genre_text;
          t = re_sub ref_pair_at t;
          t = re_sub ref_self_at t;
          t = strip_template_prefix t;
          t = strip_closing_braces t
      in re_sub nowrap_at t)"

text \<open>Lines 131-149: one item of a list template; it yields at most one label.\<close>

definition list_item :: "string \<Rightarrow> string list" where
  "list_item item0 =
     (let item = strip item0 in
      if item = [] then []
      else
        let item = re_sub wikilink_at item;
            item = re_sub nowrap_at item;
            item = (if CHR ''('' \<in> set item then
                      (if first_suffix era_paren_at item \<noteq> None then item
                       else re_sub paren_at item)
                    else item);
            item = strip item
        in if item \<noteq> [] \<and> \<not> prefix ''<!--'' item then [item] else [])"

text \<open>
  Lines 103-149: the list-template branch, on the text from the start of the template.
  \<^verbatim>\<open>end_pos\<close> stays 0 when the braces never close, and nothing is appended then.
\<close>

definition list_branch :: "string \<Rightarrow> string list" where
  "list_branch template_text =
     (let end_pos = (case depth_scan CHR ''{'' CHR ''}'' 0 template_text of
                       Some n \<Rightarrow> n | None \<Rightarrow> 0)
      in if end_pos > 0 then
           let template_content = take end_pos template_text;
               template_content = strip_template_prefix template_content;
               template_content = strip_closing_braces template_content;
               items = (if CHR ''*'' \<in> set template_content
                        then split_runs (\<lambda>c. c = CHR ''*'') template_content
                        else split_chars (\<lambda>c. c = CHR ''|'') template_content)
           in concat (map list_item items)
         else [])"

text \<open>Lines 151-169: the branch for plain, delimited text.\<close>

definition plain_delimiters :: string where
  "plain_delimiters = [CHR '','', CHR '';'', CHR ''/'', CHR 0x0A, CHR 0xB7, CHR ''|'']"

definition plain_piece :: "string \<Rightarrow> string list" where
  "plain_piece piece =
     (let genre = strip piece;
          genre = (if contains ''[['' genre then re_sub wikilink_at genre else genre)
      in if genre = [] \<or> prefix ''{{'' genre \<or> prefix ''<!--'' genre \<or> prefix ''<ref'' genre
         then [] else [genre])"

definition plain_branch :: "string \<Rightarrow> string list" where
  "plain_branch genre_text =
     (let genre_text = re_sub br_at genre_text;
          raw_genres = split_chars (\<lambda>c. c \<in> set plain_delimiters) genre_text
      in concat (map plain_piece raw_genres))"

text \<open>
  Lines 80-169: the list \<^verbatim>\<open>genres\<close> before normalization. The search of line 100
  succeeds exactly when the one of line 98 does, at the same position.
\<close>

definition raw_genres :: "string \<Rightarrow> string list" where
  "raw_genres genre_text =
     (let t = clean_field genre_text in
      case first_suffix list_template_at t of
        Some template_text \<Rightarrow> list_branch template_text
      | None \<Rightarrow> plain_branch t)"

text \<open>Lines 171-197: normalization, filtering and the first-seen accumulation.\<close>

definition skip_terms :: "string list" where
  "skip_terms = [''music'', ''band'', ''group'', [], ''cite web'', ''cite book'',
     ''first'', ''last'', ''url'', ''title'', ''ref'', ''name'', ''am'',
     ''allmusic'', ''www'', ''com'', ''http'', ''https'', ''ref name'',
     ''work'', ''date'', ''publisher'', ''website'', ''access-date'',
     ''archive-date'', ''archive-url'', ''page'', ''isbn'', ''year'',
     ''citation'', ''url-status'', ''live'', ''rock music'', ''rock'']"

definition normalized_label :: "string \<Rightarrow> string" where
  "normalized_label genre = normalize_genre (strip (filter (\<lambda>c. c \<noteq> CHR ''*'') genre))"

definition is_genre :: "string \<Rightarrow> bool" where
  "is_genre normalized \<longleftrightarrow>
     normalized \<noteq> [] \<and> length normalized > 1 \<and> normalized \<notin> set skip_terms
     \<and> \<not> contains ''ref'' normalized \<and> \<not> contains ''cite'' normalized
     \<and> CHR ''.'' \<notin> set normalized"

fun normalize_all :: "string list \<Rightarrow> string list \<Rightarrow> string list" where
  "normalize_all normalized_genres [] = normalized_genres"
| "normalize_all normalized_genres (genre # genres) =
     (let normalized = normalized_label genre in
      if is_genre normalized \<and> normalized \<notin> set normalized_genres
      then normalize_all (normalized_genres @ [normalized]) genres
      else normalize_all normalized_genres genres)"

definition parse_genre_field :: "string \<Rightarrow> string list" where
  "parse_genre_field genre_text = normalize_all [] (raw_genres genre_text)"

subsection \<open>extract\_genres\_from\_infobox (lines 199-263)\<close>

text \<open>
  Lines 215-227: \<^verbatim>\<open>infobox_end\<close> starts as the length of \<^verbatim>\<open>text_from_start\<close>
  and is overwritten when the scan breaks.
\<close>

definition infobox_span :: "string \<Rightarrow> string" where
  "infobox_span text_from_start =
     (let infobox_end = (case depth_scan CHR ''{'' CHR ''}'' 0 text_from_start of
                            Some n \<Rightarrow> n | None \<Rightarrow> length text_from_start)
      in take infobox_end text_from_start)"

text \<open>
  Line 239: a line that opens the genre field: whitespace, a bar, whitespace, the word
  genre or genres (case ignored), whitespace and an equals sign. The result is the text
  after the equals sign; line 242 removes that prefix and the whitespace after it.
\<close>

definition genre_field_match :: "string \<Rightarrow> string option" where
  "genre_field_match line =
     (let a = dropWhile is_space line in
      if prefix ''|'' a then
        let b = dropWhile is_space (drop 1 a) in
        if ci_prefix ''genre'' b then
          let c = drop 5 b;
              c = (if ci_prefix ''s'' c then drop 1 c else c);
              d = dropWhile is_space c
          in if prefix ''='' d then Some (drop 1 d) else None
        else None
      else None)"

definition brace_balance :: "string \<Rightarrow> int" where
  "brace_balance line = int (count_list line CHR ''{'') - int (count_list line CHR ''}'')"

text \<open>
  Lines 233-253: the loop over the lines, with its three variables; the \<^verbatim>\<open>break\<close>
  returns the lines collected so far.
\<close>

fun field_lines :: "string list \<Rightarrow> bool \<Rightarrow> int \<Rightarrow> string list \<Rightarrow> string list" where
  "field_lines genre_content in_genre_field bracket_depth [] = genre_content"
| "field_lines genre_content in_genre_field bracket_depth (line # lines) =
     (case genre_field_match line of
        Some after_eq \<Rightarrow>
          let genre_line = dropWhile is_space after_eq
          in field_lines (genre_content @ [genre_line]) True (brace_balance genre_line) lines
      | None \<Rightarrow>
          if in_genre_field then
            (if prefix ''|'' (strip line) \<and> bracket_depth = 0 then genre_content
             else field_lines (genre_content @ [line]) True
                    (bracket_depth + brace_balance line) lines)
          else field_lines genre_content in_genre_field bracket_depth lines)"

definition locate_genre_field :: "string \<Rightarrow> string list" where
  "locate_genre_field infobox_text =
     field_lines [] False 0 (split_chars (\<lambda>c. c = CHR 0x0A) infobox_text)"

text \<open>
  Lines 204-258: the text of the genre field, or nothing when the document has no
  infobox or the infobox no genre line.
\<close>

definition located_field :: "string \<Rightarrow> string option" where
  "located_field text =
     (case first_suffix (ci_prefix ''{{infobox'') text of
        None \<Rightarrow> None
      | Some text_from_start \<Rightarrow>
          let infobox_text = infobox_span text_from_start;
              genre_content = locate_genre_field infobox_text
          in if genre_content = [] then None else Some (join ''\<newline>'' genre_content))"

definition extract_genres_from_infobox :: "string \<Rightarrow> string list option" where
  "extract_genres_from_infobox text =
     (case located_field text of
        None \<Rightarrow> None
      | Some genre_text \<Rightarrow>
          let genres = parse_genre_field genre_text
          in if genres \<noteq> [] then Some genres else None)"

subsection \<open>extract\_artist\_name\_from\_filename (lines 265-278)\<close>

text \<open>
  \<^verbatim>\<open>os.path.splitext(filename)[0]\<close>: the name is cut at its last dot when that dot
  comes after the last path separator and some character between the two is not a dot.
\<close>

definition rfind :: "char \<Rightarrow> string \<Rightarrow> int" where
  "rfind c s =
     (if c \<in> set s then int (length s) - 1 - int (length (takeWhile (\<lambda>x. x \<noteq> c) (rev s)))
      else - 1)"

definition splitext_root :: "string \<Rightarrow> string" where
  "splitext_root p =
     (let sepIndex = rfind CHR ''/'' p;
          dotIndex = rfind CHR ''.'' p
      in if dotIndex > sepIndex
            \<and> list_ex (\<lambda>c. c \<noteq> CHR ''.'')
                 (take (nat (dotIndex - (sepIndex + 1))) (drop (nat (sepIndex + 1)) p))
         then take (nat dotIndex) p
         else p)"

text \<open>
  Line 276: whitespace, a parenthesis up to its first closing one, and whitespace up to
  the end of the name.
\<close>

definition name_suffix_at :: "string \<Rightarrow> (string \<times> string) option" where
  "name_suffix_at s =
     (let a = dropWhile is_space s in
      if prefix ''('' a then
        (case dropWhile (\<lambda>c. c \<noteq> CHR '')'') (drop 1 a) of
           [] \<Rightarrow> None
         | _ # rest \<Rightarrow> if list_all is_space rest then Some ([], []) else None)
      else None)"

definition extract_artist_name_from_filename :: "string \<Rightarrow> string" where
  "extract_artist_name_from_filename filename =
     (let name = splitext_root filename;
          name = map (\<lambda>c. if c = CHR ''_'' then CHR '' '' else c) name;
          name = re_sub name_suffix_at name
      in strip name)"

subsection \<open>process\_wiki\_files (lines 280-330)\<close>

text \<open>
  The folder is \<open>None\<close> when it does not exist, and otherwise the list of its
  \<^verbatim>\<open>.txt\<close> files, each with its name and its content; the content is \<open>None\<close>
  when reading the file raises, which the \<^verbatim>\<open>except\<close> clause of the loop catches.
  The dictionary \<^verbatim>\<open>artist_genres\<close> is a map; the two counters only feed the
  console report and are left out.
\<close>

datatype error = ValueError

definition process_file ::
  "(string \<rightharpoonup> string list) \<Rightarrow> string \<times> string option \<Rightarrow> (string \<rightharpoonup> string list)" where
  "process_file artist_genres file =
     (case snd file of
        None \<Rightarrow> artist_genres
      | Some content \<Rightarrow>
          let artist_name = extract_artist_name_from_filename (fst file);
              genres = extract_genres_from_infobox content
          in (case genres of
                Some gs \<Rightarrow> if gs \<noteq> [] then artist_genres(artist_name \<mapsto> gs) else artist_genres
              | None \<Rightarrow> artist_genres))"

definition process_wiki_files ::
  "(string \<times> string option) list option \<Rightarrow> error + (string \<rightharpoonup> string list)" where
  "process_wiki_files folder =
     (case folder of
        None \<Rightarrow> Inl ValueError
      | Some txt_files \<Rightarrow> Inr (foldl process_file Map.empty txt_files))"

section \<open>rock\_network.py\<close>

subsection \<open>extract\_wiki\_links (lines 28-42)\<close>





subsection \<open>clean\_network (lines 112-128)\<close>

type_synonym attrs = "(string \<times> int) list"















section \<open>Notions used to state the properties\<close>









text \<open>
  The position of the first occurrence of an entry in a list (the length of the list when
  it does not occur), for stating that first-seen order is kept.
\<close>

definition first_index :: "'a \<Rightarrow> 'a list \<Rightarrow> nat" where
  "first_index x xs = length (takeWhile (\<lambda>y. y \<noteq> x) xs)"




text \<open>
  The interior of an HTML comment: a text between the opening and the closing mark that
  does not itself hold the closing mark, and that does not begin with a piece of it (so
  that the closing mark of the comment is the first one after the opening mark).
\<close>

definition comment_interior :: "string \<Rightarrow> bool" where
  "comment_interior c \<longleftrightarrow> \<not> contains ''-->'' c \<and> \<not> prefix ''>'' c \<and> \<not> prefix ''->'' c"

text \<open>
  The characters that the label normalizer deletes outright (brackets, braces, quotes).
  A label is settled when none of the patterns that a second normalization would act on
  occurs in it: no opening of a reference tag or of a comment, no URL prefix, and not one
  of the two rock-and-roll variants that can be written without a quote. A list of words
  is tidy when every word is non-empty and free of whitespace.
\<close>

definition markup_chars :: "char list" where
  "markup_chars = [CHR ''['', CHR '']'', CHR ''{'', CHR ''}'', CHR 0x22, CHR 0x27, CHR 0x60]"

definition settled_label :: "string \<Rightarrow> bool" where
  "settled_label y \<longleftrightarrow>
     \<not> contains ''<ref'' y \<and> \<not> contains ''<!--'' y \<and>
     \<not> contains ''http://'' y \<and> \<not> contains ''https://'' y \<and> \<not> contains ''www.'' y \<and>
     y \<noteq> ''rock n roll'' \<and> y \<noteq> ''rock & roll''"

definition tidy :: "string list \<Rightarrow> bool" where
  "tidy ws \<longleftrightarrow> (\<forall>w \<in> set ws. w \<noteq> [] \<and> (\<forall>c \<in> set w. \<not> is_space c))"






section \<open>Properties of the bracket matcher\<close>





section \<open>Properties of the link extraction\<close>



lemma set_strip: "set (strip x) \<subseteq> set x"
  by (auto simp: strip_def lstrip_def rstrip_def dest!: set_dropWhileD)







section \<open>The end-to-end scenario\<close>

lemma process_file_unreadable: "process_file m (f, None) = m"
  by (simp add: process_file_def)

lemma process_file_readable:
  "process_file m (f, Some c) =
     (case extract_genres_from_infobox c of
        Some gs \<Rightarrow> if gs \<noteq> [] then m(extract_artist_name_from_filename f \<mapsto> gs) else m
      | None \<Rightarrow> m)"
  by (simp add: process_file_def)

text \<open>
  C1. The document of the scenario, read from the file \<^verbatim>\<open>The_Clash.txt\<close>: the file
  name gives the artist key \<^verbatim>\<open>The Clash\<close>, the content gives the two genres in the
  order of the list, and the driver stores exactly this one entry.
\<close>

theorem the_clash_end_to_end:
  "extract_artist_name_from_filename ''The_Clash.txt'' = ''The Clash''
   \<and> extract_genres_from_infobox
       ''{{Infobox musical artist\<newline>| genre = {{flatlist|\<newline>* [[Punk rock]]\<newline>* Rock and roll\<newline>}}\<newline>| born = 1970\<newline>}}''
     = Some [''punk rock'', ''rock and roll'']
   \<and> process_wiki_files (Some [(''The_Clash.txt'', Some
       ''{{Infobox musical artist\<newline>| genre = {{flatlist|\<newline>* [[Punk rock]]\<newline>* Rock and roll\<newline>}}\<newline>| born = 1970\<newline>}}'')])
     = Inr [''The Clash'' \<mapsto> [''punk rock'', ''rock and roll'']]"
proof -
  have name: "extract_artist_name_from_filename ''The_Clash.txt'' = ''The Clash''"
    by code_simp
  have genres: "extract_genres_from_infobox
       ''{{Infobox musical artist\<newline>| genre = {{flatlist|\<newline>* [[Punk rock]]\<newline>* Rock and roll\<newline>}}\<newline>| born = 1970\<newline>}}''
     = Some [''punk rock'', ''rock and roll'']"
    by code_simp
  have files: "process_wiki_files (Some [(''The_Clash.txt'', Some
       ''{{Infobox musical artist\<newline>| genre = {{flatlist|\<newline>* [[Punk rock]]\<newline>* Rock and roll\<newline>}}\<newline>| born = 1970\<newline>}}'')])
     = Inr [''The Clash'' \<mapsto> [''punk rock'', ''rock and roll'']]"
    unfolding process_wiki_files_def option.case foldl.simps process_file_readable genres name
    by simp
  from name genres files show ?thesis by blast
qed

section \<open>The list-template branch\<close>

text \<open>
  C2. A field whose text is a list template. Line 91 removes the template name before
  line 98 looks for it, so the search finds nothing, the branch for plain text runs, and
  the parenthetical of the item stays in the label.
\<close>

theorem flatlist_field_takes_plain_branch:
  "first_suffix list_template_at (clean_field ''{{flatlist|\<newline>* Punk rock (UK)\<newline>}}'') = None
   \<and> raw_genres ''{{flatlist|\<newline>* Punk rock (UK)\<newline>}}'' = [''* Punk rock (UK)'']
   \<and> parse_genre_field ''{{flatlist|\<newline>* Punk rock (UK)\<newline>}}'' = [''punk rock (uk)'']
   \<and> list_branch ''{{flatlist|\<newline>* Punk rock (UK)\<newline>}}'' = [''Punk rock'']"
proof -
  have a: "first_suffix list_template_at
      (clean_field ''{{flatlist|\<newline>* Punk rock (UK)\<newline>}}'') = None"
    by code_simp
  have b: "raw_genres ''{{flatlist|\<newline>* Punk rock (UK)\<newline>}}'' = [''* Punk rock (UK)'']"
    by code_simp
  have c: "parse_genre_field ''{{flatlist|\<newline>* Punk rock (UK)\<newline>}}'' = [''punk rock (uk)'']"
    by code_simp
  have d: "list_branch ''{{flatlist|\<newline>* Punk rock (UK)\<newline>}}'' = [''Punk rock'']"
    by code_simp
  from a b c d show ?thesis by blast
qed

section \<open>Characters kept by the text transformations\<close>

lemma find_after_set: "find_after lit s = Some r \<Longrightarrow> set r \<subseteq> set s"
  by (induction s) (auto split: if_splits dest: in_set_dropD)

lemma re_sub_set:
  "(\<And>t r rest. m t = Some (r, rest) \<Longrightarrow> set r \<subseteq> set t \<and> set rest \<subseteq> set t)
   \<Longrightarrow> set (re_sub m s) \<subseteq> set s"
proof (induction m s rule: re_sub.induct)
  case (1 m)
  show ?case by simp
next
  case (2 m x xs)
  show ?case
  proof (cases "m (x # xs)")
    case None
    with 2 show ?thesis by auto
  next
    case (Some p)
    obtain r rest where p: "p = (r, rest)" by (cases p)
    from Some p have eq: "m (x # xs) = Some (r, rest)" by simp
    show ?thesis
    proof (cases "length rest < length (x # xs)")
      case True
      from "2.prems" [OF eq]
      have "set r \<subseteq> set (x # xs)" "set rest \<subseteq> set (x # xs)" by simp_all
      moreover from "2.IH"(2) [OF Some p [symmetric] True "2.prems"]
      have "set (re_sub m rest) \<subseteq> set rest" by blast
      ultimately show ?thesis using eq True by auto
    next
      case False
      from "2.IH"(3) [OF Some p [symmetric] False "2.prems"]
      have "set (re_sub m xs) \<subseteq> set xs" by blast
      with eq False show ?thesis by auto
    qed
  qed
qed

lemmas in_set_parts = in_set_dropD set_dropWhileD set_takeWhileD

lemma link_tail_set: "link_tail q = Some (r, rest) \<Longrightarrow> set r \<subseteq> set q \<and> set rest \<subseteq> set q"
  unfolding link_tail_def Let_def
  by (auto split: if_splits; blast dest: in_set_parts)

lemma wikilink_at_set: "wikilink_at t = Some (r, rest) \<Longrightarrow> set r \<subseteq> set t \<and> set rest \<subseteq> set t"
  unfolding wikilink_at_def Let_def
  by (auto split: if_splits option.splits dest!: link_tail_set; blast dest: in_set_parts)

lemma ref_pair_at_set: "ref_pair_at t = Some (r, rest) \<Longrightarrow> set r \<subseteq> set t \<and> set rest \<subseteq> set t"
  unfolding ref_pair_at_def
  by (auto split: if_splits option.splits list.splits dest!: find_after_set;
      metis in_set_parts(1,2) list.set_intros(2) subsetD)

lemma ref_self_at_set: "ref_self_at t = Some (r, rest) \<Longrightarrow> set r \<subseteq> set t \<and> set rest \<subseteq> set t"
  unfolding ref_self_at_def Let_def
  by (auto split: if_splits; blast dest: in_set_parts)

lemma ref_open_at_set: "ref_open_at t = Some (r, rest) \<Longrightarrow> set r \<subseteq> set t \<and> set rest \<subseteq> set t"
  unfolding ref_open_at_def
  by (auto split: if_splits list.splits; metis in_set_parts(1,2) list.set_intros(2))

lemma comment_at_set: "comment_at t = Some (r, rest) \<Longrightarrow> set r \<subseteq> set t \<and> set rest \<subseteq> set t"
  unfolding comment_at_def
  by (auto split: if_splits option.splits dest!: find_after_set; blast dest: in_set_parts)

lemma http_at_set: "http_at t = Some (r, rest) \<Longrightarrow> set r \<subseteq> set t \<and> set rest \<subseteq> set t"
  unfolding http_at_def Let_def
  by (auto split: if_splits; blast dest: in_set_parts)

lemma www_at_set: "www_at t = Some (r, rest) \<Longrightarrow> set r \<subseteq> set t \<and> set rest \<subseteq> set t"
  unfolding www_at_def Let_def
  by (auto split: if_splits; blast dest: in_set_parts)


lemma upper_lower_disjoint: "set upper_chars \<inter> set lower_chars = {}"
  by code_simp

lemma to_lower_idem: "to_lower (to_lower c) = to_lower c"
proof (cases "map_of (zip upper_chars lower_chars) c")
  case None
  then show ?thesis by (simp add: to_lower_def)
next
  case (Some d)
  then have "d \<in> set lower_chars"
    by (meson map_of_SomeD set_zip_rightD)
  with upper_lower_disjoint have "d \<notin> set upper_chars" by blast
  moreover have "length upper_chars = length lower_chars"
    by code_simp
  ultimately have "map_of (zip upper_chars lower_chars) d = None"
    by (simp add: map_of_zip_is_None)
  with Some show ?thesis by (simp add: to_lower_def)
qed

lemma lower_fixed: "list_all (\<lambda>c. to_lower c = c) s \<Longrightarrow> lower s = s"
  by (simp add: lower_def list_all_iff map_idI)

lemma lower_is_lower: "list_all (\<lambda>c. to_lower c = c) (lower s)"
  by (simp add: lower_def list_all_iff to_lower_idem)

lemma list_all_subset: "set ys \<subseteq> set xs \<Longrightarrow> list_all P xs \<Longrightarrow> list_all P ys"
  by (auto simp: list_all_iff)

lemma set_split_chars: "w \<in> set (split_chars p s) \<Longrightarrow> set w \<subseteq> set s"
proof (induction s arbitrary: w)
  case Nil
  then show ?case by simp
next
  case (Cons a s)
  show ?case
  proof (cases "split_chars p s")
    case Nil
    with Cons show ?thesis by (auto split: if_splits)
  next
    case (Cons v vs)
    with Cons.IH [of v] have v: "set v \<subseteq> set s" by simp
    from Cons Cons.IH have vs: "\<And>u. u \<in> set vs \<Longrightarrow> set u \<subseteq> set s" by simp
    from Cons.prems Cons v vs show ?thesis by (auto split: if_splits)
  qed
qed

lemma set_join: "set (join sep ws) \<subseteq> set sep \<union> \<Union> (set ` set ws)"
  by (induction sep ws rule: join.induct) auto

lemma standardize_rock_cases:
  "standardize_rock g = g \<or> standardize_rock g = ''rock and roll''"
  by (simp add: standardize_rock_def rock_variations_def)

lemma rock_and_roll_lower: "list_all (\<lambda>c. to_lower c = c) ''rock and roll''"
  by code_simp

lemma space_lower: "to_lower CHR '' '' = CHR '' ''"
  by code_simp

lemma strip_keeps_lower:
  "list_all (\<lambda>c. to_lower c = c) s \<Longrightarrow> list_all (\<lambda>c. to_lower c = c) (strip s)"
  using set_strip list_all_subset by blast

lemma filter_keeps_lower:
  "list_all (\<lambda>c. to_lower c = c) s \<Longrightarrow> list_all (\<lambda>c. to_lower c = c) (filter P s)"
  by (simp add: list_all_iff)

lemma re_sub_keeps_lower:
  assumes "\<And>t r rest. m t = Some (r, rest) \<Longrightarrow> set r \<subseteq> set t \<and> set rest \<subseteq> set t"
    and "list_all (\<lambda>c. to_lower c = c) s"
  shows "list_all (\<lambda>c. to_lower c = c) (re_sub m s)"
  using re_sub_set [of m s] assms list_all_subset by blast

lemma standardize_rock_keeps_lower:
  assumes "list_all (\<lambda>c. to_lower c = c) s"
  shows "list_all (\<lambda>c. to_lower c = c) (standardize_rock s)"
proof -
  from standardize_rock_cases [of s] show ?thesis
  proof
    assume "standardize_rock s = s"
    with assms show ?thesis by (simp only:)
  next
    assume "standardize_rock s = ''rock and roll''"
    with rock_and_roll_lower show ?thesis by (simp only:)
  qed
qed

lemma join_split_keeps_lower:
  assumes "list_all (\<lambda>c. to_lower c = c) s"
  shows "list_all (\<lambda>c. to_lower c = c) (join '' '' (py_split s))"
proof -
  have "set (join '' '' (py_split s)) \<subseteq> set '' '' \<union> set s"
    unfolding py_split_def
    using set_join [of "'' ''" "filter (\<lambda>w. w \<noteq> []) (split_chars is_space s)"]
      set_split_chars [of _ is_space s] by auto
  with assms space_lower show ?thesis by (auto simp: list_all_iff)
qed

lemma normalize_genre_lower: "list_all (\<lambda>c. to_lower c = c) (normalize_genre x)"
proof -
  note step = re_sub_keeps_lower
  have "list_all (\<lambda>c. to_lower c = c) (strip (lower x))"
    by (rule strip_keeps_lower [OF lower_is_lower])
  note step [OF wikilink_at_set this]
  note filter_keeps_lower [OF this, where P = "\<lambda>c. c \<noteq> CHR ''['' \<and> c \<noteq> CHR '']''"]
  note step [OF ref_pair_at_set this]
  note step [OF ref_self_at_set this]
  note step [OF ref_open_at_set this]
  note step [OF comment_at_set this]
  note step [OF http_at_set this]
  note step [OF www_at_set this]
  note filter_keeps_lower [OF this,
      where P = "\<lambda>c. c \<notin> set [CHR ''{'', CHR ''}'', CHR 0x22, CHR 0x27, CHR 0x60]"]
  note standardize_rock_keeps_lower [OF this]
  note join_split_keeps_lower [OF this]
  note strip_keeps_lower [OF this]
  then show ?thesis unfolding normalize_genre_def Let_def .
qed

section \<open>Deduplication and the stored lists\<close>

lemma remdups_skip: "n \<in> set zs \<Longrightarrow> remdups (ys @ n # zs) = remdups (ys @ zs)"
  by (induction ys) (auto simp: insert_absorb)

lemma normalize_all_firsts:
  "distinct acc \<Longrightarrow>
   normalize_all acc gs = rev (remdups (rev (acc @ filter is_genre (map normalized_label gs))))"
proof (induction gs arbitrary: acc)
  case Nil
  then show ?case by (simp add: distinct_remdups_id)
next
  case (Cons g gs)
  let ?n = "normalized_label g"
  show ?case
  proof (cases "is_genre ?n")
    case False
    with Cons show ?thesis by simp
  next
    case True
    show ?thesis
    proof (cases "?n \<in> set acc")
      case True
      with \<open>is_genre ?n\<close> Cons show ?thesis by (simp add: remdups_skip)
    next
      case False
      with Cons.prems have "distinct (acc @ [?n])" by simp
      from Cons.IH [OF this] False \<open>is_genre ?n\<close> show ?thesis by simp
    qed
  qed
qed

lemma first_index_less: "a \<in> set xs \<Longrightarrow> first_index a xs < length xs"
  by (induction xs) (auto simp: first_index_def)

lemma first_seen_order:
  "sorted_wrt (\<lambda>a b. first_index a xs < first_index b xs) (rev (remdups (rev xs)))"
proof (induction xs rule: rev_induct)
  case Nil
  show ?case by simp
next
  case (snoc x xs)
  let ?F = "rev (remdups (rev xs))"
  have same: "first_index a (xs @ [x]) = first_index a xs" if "a \<in> set xs" for a
    using that by (simp add: first_index_def takeWhile_append1)
  have mono: "sorted_wrt (\<lambda>a b. first_index a (xs @ [x]) < first_index b (xs @ [x])) ?F"
    using snoc by (rule sorted_wrt_mono_rel [rotated]) (simp add: same)
  show ?case
  proof (cases "x \<in> set xs")
    case True
    with mono show ?thesis by simp
  next
    case False
    then have "takeWhile (\<lambda>y. y \<noteq> x) xs = xs"
      by (auto simp: takeWhile_eq_all_conv)
    then have "first_index x (xs @ [x]) = length xs"
      by (simp add: first_index_def takeWhile_tail)
    moreover have "first_index a (xs @ [x]) < length xs" if "a \<in> set xs" for a
      using first_index_less [OF that] same [OF that] by simp
    ultimately show ?thesis using False mono by (simp add: sorted_wrt_append)
  qed
qed

lemma stored_lists:
  assumes "\<And>k gs. m k = Some gs \<Longrightarrow> Q gs"
    and "\<And>c gs. extract_genres_from_infobox c = Some gs \<Longrightarrow> Q gs"
  shows "foldl process_file m fls k = Some gs \<Longrightarrow> Q gs"
  using assms(1)
proof (induction fls arbitrary: m)
  case Nil
  then show ?case by simp
next
  case (Cons fl fls)
  obtain f c where fl: "fl = (f, c)" by (cases fl)
  have "\<And>k gs. process_file m fl k = Some gs \<Longrightarrow> Q gs"
    using Cons.prems(2) assms(2) unfolding fl
    by (cases c) (auto simp: process_file_unreadable process_file_readable
        split: option.splits if_splits)
  from Cons.IH [OF _ this] Cons.prems(1) show ?case by simp
qed



text \<open>
  C7. For every field text the parsed list has no repeated entry, every entry is
  non-empty, lower-case and outside the skip list, and the list is the sequence of
  accepted normalized labels with all but the first occurrence of each removed, so the
  entries stand in the order of their first occurrences. The same holds for every list
  \<^verbatim>\<open>extract_genres_from_infobox\<close> returns and for every list that
  \<^verbatim>\<open>process_wiki_files\<close> stores.
\<close>

theorem parsed_genres_invariants:
  "distinct (parse_genre_field t)
   \<and> (\<forall>g \<in> set (parse_genre_field t). g \<noteq> [] \<and> lower g = g \<and> g \<notin> set skip_terms)
   \<and> parse_genre_field t
       = rev (remdups (rev (filter is_genre (map normalized_label (raw_genres t)))))
   \<and> sorted_wrt (\<lambda>a b. first_index a (filter is_genre (map normalized_label (raw_genres t)))
                      < first_index b (filter is_genre (map normalized_label (raw_genres t))))
       (parse_genre_field t)
   \<and> (extract_genres_from_infobox text = Some gs \<longrightarrow>
        distinct gs \<and> (\<forall>g \<in> set gs. g \<noteq> [] \<and> lower g = g \<and> g \<notin> set skip_terms))
   \<and> (process_wiki_files (Some files) = Inr m \<and> m k = Some gs \<longrightarrow>
        distinct gs \<and> (\<forall>g \<in> set gs. g \<noteq> [] \<and> lower g = g \<and> g \<notin> set skip_terms))"
proof -
  let ?Q = "\<lambda>gs. distinct gs \<and> (\<forall>g \<in> set gs. g \<noteq> [] \<and> lower g = g \<and> g \<notin> set skip_terms)"
  have eq: "parse_genre_field u
      = rev (remdups (rev (filter is_genre (map normalized_label (raw_genres u)))))" for u
    using normalize_all_firsts [of "[]" "raw_genres u"] by (simp add: parse_genre_field_def)
  have low: "lower (normalized_label r) = normalized_label r" for r
    unfolding normalized_label_def by (rule lower_fixed [OF normalize_genre_lower])
  have Q: "?Q (parse_genre_field u)" for u
    unfolding eq by (auto simp: is_genre_def low)
  have ord: "sorted_wrt (\<lambda>a b. first_index a (filter is_genre (map normalized_label (raw_genres t)))
                      < first_index b (filter is_genre (map normalized_label (raw_genres t))))
       (parse_genre_field t)"
    unfolding eq by (rule first_seen_order)
  have ex: "?Q gs'" if "extract_genres_from_infobox c = Some gs'" for c gs'
    using that Q by (auto simp: extract_genres_from_infobox_def Let_def split: option.splits if_splits)
  have st: "?Q gs" if "process_wiki_files (Some files) = Inr m" "m k = Some gs"
  proof -
    from that have "foldl process_file Map.empty files k = Some gs"
      by (auto simp: process_wiki_files_def)
    then show ?thesis by (rule stored_lists [rotated 2]) (simp, rule ex)
  qed
  from Q [of t] eq [of t] ord ex [of "text" gs] st show ?thesis by blast
qed

theorem parsed_genres_invariants_witness:
  "parse_genre_field ''Pop, Rock, [[pop]], Indie rock; pop'' = [''pop'', ''indie rock'']
   \<and> distinct (parse_genre_field ''Pop, Rock, [[pop]], Indie rock; pop'')
   \<and> lower ''indie rock'' = ''indie rock''
   \<and> ''indie rock'' \<notin> set skip_terms
   \<and> extract_genres_from_infobox ''{{Infobox x\<newline>| genre = Pop, Rock, [[pop]], Indie rock; pop\<newline>}}''
       = Some [''pop'', ''indie rock'']
   \<and> distinct [''pop'', ''indie rock'']"
proof -
  have p: "parse_genre_field ''Pop, Rock, [[pop]], Indie rock; pop'' = [''pop'', ''indie rock'']"
    by code_simp
  have e: "extract_genres_from_infobox
      ''{{Infobox x\<newline>| genre = Pop, Rock, [[pop]], Indie rock; pop\<newline>}}''
       = Some [''pop'', ''indie rock'']"
    by code_simp
  have i: "''indie rock'' \<in> set [''pop'', ''indie rock'']"
    by simp
  note t = parsed_genres_invariants
    [of "''Pop, Rock, [[pop]], Indie rock; pop''"
        "''{{Infobox x\<newline>| genre = Pop, Rock, [[pop]], Indie rock; pop\<newline>}}''"
        "[''pop'', ''indie rock'']"]
  from t have d: "distinct (parse_genre_field ''Pop, Rock, [[pop]], Indie rock; pop'')"
    by blast
  from t have "\<forall>g \<in> set (parse_genre_field ''Pop, Rock, [[pop]], Indie rock; pop'').
      g \<noteq> [] \<and> lower g = g \<and> g \<notin> set skip_terms"
    by blast
  with i have l: "lower ''indie rock'' = ''indie rock'' \<and> ''indie rock'' \<notin> set skip_terms"
    unfolding p by blast
  from t e have d2: "distinct [''pop'', ''indie rock'']"
    by blast
  from p d l e d2 show ?thesis by blast
qed

section \<open>Documents without genres\<close>






section \<open>The field locator\<close>














section \<open>Comments are removed before brackets are counted\<close>

lemma find_after_length: "find_after lit s = Some r \<Longrightarrow> length r + length lit \<le> length s"
  by (induction s) (auto split: if_splits dest: prefix_length_le)

lemma contains_Cons: "contains lit (x # xs) \<longleftrightarrow> prefix lit (x # xs) \<or> contains lit xs"
  by (simp add: contains_def)

lemma find_after_append:
  "find_after ''-->'' u = Some r \<Longrightarrow> find_after ''-->'' (u @ w) = Some (r @ w)"
proof (induction u)
  case Nil
  then show ?case by simp
next
  case (Cons x u)
  show ?case
  proof (cases "prefix ''-->'' (x # u)")
    case True
    then have "prefix ''-->'' ((x # u) @ w)" by (metis prefix_prefix)
    moreover from True have "3 \<le> length (x # u)" using prefix_length_le by fastforce
    ultimately show ?thesis using True Cons.prems by (auto split: if_splits)
  next
    case False
    with Cons.prems have f: "find_after ''-->'' u = Some r" by (auto split: if_splits)
    from find_after_length [OF f] have "3 \<le> length u" by simp
    with False have "\<not> prefix ''-->'' ((x # u) @ w)"
      by (cases u; cases "tl u") auto
    with Cons.IH [OF f] show ?thesis by (auto split: if_splits)
  qed
qed

lemma find_after_terminator:
  "\<not> contains ''-->'' c \<Longrightarrow> find_after ''-->'' (c @ ''-->'' @ b) = Some b"
proof (induction c)
  case Nil
  show ?case by simp
next
  case (Cons x c)
  then have np: "\<not> prefix ''-->'' (x # c)" and nc: "\<not> contains ''-->'' c"
    by (simp_all add: contains_Cons)
  from np have "\<not> prefix ''-->'' ((x # c) @ ''-->'' @ b)"
    by (cases c; cases "tl c") auto
  with Cons.IH [OF nc] show ?case by (auto split: if_splits)
qed

lemma find_after_comment:
  "find_after ''-->'' u = None \<Longrightarrow> comment_interior c \<Longrightarrow>
   find_after ''-->'' (u @ ''<!--'' @ c @ ''-->'' @ b) = Some b"
proof (induction u)
  case Nil
  from Nil(2) have t: "find_after ''-->'' (c @ ''-->'' @ b) = Some b"
    using find_after_terminator [of c b] by (simp add: comment_interior_def)
  from Nil(2) have "\<not> prefix ''>'' c" "\<not> prefix ''->'' c"
    by (simp_all add: comment_interior_def)
  then have "\<not> prefix ''-->'' (''--'' @ c @ ''-->'' @ b)" "\<not> prefix ''-->'' (''-'' @ c @ ''-->'' @ b)"
    by (cases c; cases "tl c"; auto)+
  with t show ?case by (auto split: if_splits)
next
  case (Cons x u)
  then have np: "\<not> prefix ''-->'' (x # u)" and f: "find_after ''-->'' u = None"
    by (auto split: if_splits)
  from np have "\<not> prefix ''-->'' ((x # u) @ ''<!--'' @ c @ ''-->'' @ b)"
    by (cases u; cases "tl u") auto
  with Cons.IH [OF f Cons.prems(2)] show ?case by (auto split: if_splits)
qed


lemma comment_at_shorter: "comment_at s = Some (r, rest) \<Longrightarrow> length rest < length s"
  by (auto simp: comment_at_def split: if_splits option.splits dest!: find_after_length)

lemma re_sub_comment_hit:
  "comment_at (x # xs) = Some (r, rest) \<Longrightarrow> re_sub comment_at (x # xs) = r @ re_sub comment_at rest"
  using comment_at_shorter [of "x # xs" r rest] by simp

lemma re_sub_comment_miss:
  "comment_at (x # xs) = None \<Longrightarrow> re_sub comment_at (x # xs) = x # re_sub comment_at xs"
  by simp

lemma comment_open_prefix:
  "a \<noteq> [] \<Longrightarrow> prefix ''<!--'' (a @ ''<!--'' @ w) \<longleftrightarrow> prefix ''<!--'' a"
  by (cases a; cases "tl a"; cases "tl (tl a)"; cases "tl (tl (tl a))") auto

lemma comment_at_None: "\<not> prefix ''<!--'' s \<Longrightarrow> comment_at s = None"
  by (simp add: comment_at_def)

lemma comment_at_open:
  "comment_at (''<!--'' @ u @ w) =
     (case find_after ''-->'' (u @ w) of Some rest \<Rightarrow> Some ([], rest) | None \<Rightarrow> None)"
  by (simp add: comment_at_def)

lemma strip_comments_interior:
  assumes "comment_interior c1" "comment_interior c2"
  shows "re_sub comment_at (a @ ''<!--'' @ c1 @ ''-->'' @ b)
       = re_sub comment_at (a @ ''<!--'' @ c2 @ ''-->'' @ b)"
proof (induction "length a" arbitrary: a rule: less_induct)
  case less
  define w where "w c = ''<!--'' @ c @ ''-->'' @ b" for c
  have w_ne: "w c = CHR ''<'' # tl (w c)" for c
    by (simp add: w_def)
  have goal: "re_sub comment_at (a @ w c1) = re_sub comment_at (a @ w c2)"
  proof (cases a)
    case Nil
    have "comment_at (w c) = Some ([], b)" if "comment_interior c" for c
      using find_after_terminator [of c b] that comment_at_open [of "[]" "c @ ''-->'' @ b"]
      by (simp add: w_def comment_interior_def)
    then have "re_sub comment_at (w c) = re_sub comment_at b" if "comment_interior c" for c
      using that re_sub_comment_hit [of "CHR ''<''" "tl (w c)" "[]" b] w_ne [of c] by simp
    with assms Nil show ?thesis by simp
  next
    case (Cons x a')
    show ?thesis
    proof (cases "prefix ''<!--'' a")
      case False
      have ane: "a \<noteq> []" using Cons by simp
      have "\<not> prefix ''<!--'' (a @ w c)" for c
        unfolding w_def using comment_open_prefix [OF ane, of "c @ ''-->'' @ b"] False by blast
      then have "comment_at (a @ w c) = None" for c
        by (rule comment_at_None)
      then have "re_sub comment_at (a @ w c) = x # re_sub comment_at (a' @ w c)" for c
        using re_sub_comment_miss [of x "a' @ w c"] Cons by simp
      moreover have "re_sub comment_at (a' @ w c1) = re_sub comment_at (a' @ w c2)"
        using less [of a'] Cons by (simp add: w_def)
      ultimately show ?thesis by simp
    next
      case True
      then obtain u where u: "a = ''<!--'' @ u" by (auto simp: prefix_def)
      have at: "comment_at (a @ w c) =
          (case find_after ''-->'' (u @ w c) of Some rest \<Rightarrow> Some ([], rest) | None \<Rightarrow> None)" for c
        unfolding u using comment_at_open [of u "w c"] by simp
      show ?thesis
      proof (cases "find_after ''-->'' u")
        case None
        have "find_after ''-->'' (u @ w c) = Some b" if "comment_interior c" for c
          using find_after_comment [OF None that, of b] by (simp add: w_def)
        then have "comment_at (a @ w c) = Some ([], b)" if "comment_interior c" for c
          using that at by simp
        then have "re_sub comment_at (a @ w c) = re_sub comment_at b" if "comment_interior c" for c
          using that re_sub_comment_hit [of x "a' @ w c" "[]" b] Cons by simp
        with assms show ?thesis by simp
      next
        case (Some r)
        have "comment_at (a @ w c) = Some ([], r @ w c)" for c
          using find_after_append [OF Some, of "w c"] at by simp
        then have "re_sub comment_at (a @ w c) = re_sub comment_at (r @ w c)" for c
          using re_sub_comment_hit [of x "a' @ w c" "[]" "r @ w c"] Cons by simp
        moreover have "length r < length a"
          using find_after_length [OF Some] u by simp
        then have "re_sub comment_at (r @ w c1) = re_sub comment_at (r @ w c2)"
          using less [of r] by (simp add: w_def)
        ultimately show ?thesis by simp
      qed
    qed
  qed
  then show ?case by (simp add: w_def)
qed

lemma parse_after_comments:
  "re_sub comment_at t1 = re_sub comment_at t2 \<Longrightarrow> parse_genre_field t1 = parse_genre_field t2"
  by (simp add: parse_genre_field_def raw_genres_def clean_field_def)


text \<open>
  Claim C5, for the field parser. The parser removes HTML comments as its first step, before
  any bracket is counted: two field texts that differ only in the interior of one comment
  are equal once the comments are removed, and the parser returns the same genre list for
  both, whatever braces the interiors hold.
\<close>

theorem comments_removed_before_parsing:
  "comment_interior c1 \<and> comment_interior c2 \<longrightarrow>
     re_sub comment_at (a @ ''<!--'' @ c1 @ ''-->'' @ b)
       = re_sub comment_at (a @ ''<!--'' @ c2 @ ''-->'' @ b)
     \<and> parse_genre_field (a @ ''<!--'' @ c1 @ ''-->'' @ b)
       = parse_genre_field (a @ ''<!--'' @ c2 @ ''-->'' @ b)"
  using strip_comments_interior [of c1 c2 a b] parse_after_comments by blast

theorem comments_removed_before_parsing_witness:
  "comment_interior '' x ''
   \<and> comment_interior '' }} {{hlist| ''
   \<and> parse_genre_field (''Punk rock, '' @ ''<!--'' @ '' x '' @ ''-->'' @ '' Pop'')
     = parse_genre_field (''Punk rock, '' @ ''<!--'' @ '' }} {{hlist| '' @ ''-->'' @ '' Pop'')
   \<and> parse_genre_field (''Punk rock, '' @ ''<!--'' @ '' x '' @ ''-->'' @ '' Pop'')
     = [''punk rock'', ''pop'']"
proof -
  have i1: "comment_interior '' x ''"
    by code_simp
  have i2: "comment_interior '' }} {{hlist| ''"
    by code_simp
  have e: "parse_genre_field (''Punk rock, '' @ ''<!--'' @ '' x '' @ ''-->'' @ '' Pop'')
     = parse_genre_field (''Punk rock, '' @ ''<!--'' @ '' }} {{hlist| '' @ ''-->'' @ '' Pop'')"
    by (rule comments_removed_before_parsing [rule_format, OF conjI, OF i1 i2, THEN conjunct2])
  have v: "parse_genre_field (''Punk rock, '' @ ''<!--'' @ '' x '' @ ''-->'' @ '' Pop'')
     = [''punk rock'', ''pop'']"
    by code_simp
  show ?thesis by (intro conjI i1 i2 e v)
qed

text \<open>
  The document-level extractor locates the infobox span by counting braces in the raw
  document, comments included: a closing brace pair inside a comment ends the span early,
  and the genre line after it is never seen.
\<close>

theorem comment_interior_changes_extraction:
  "comment_interior '' x ''
   \<and> comment_interior '' }} ''
   \<and> extract_genres_from_infobox
       (''{{Infobox a '' @ ''<!--'' @ '' x '' @ ''-->'' @ ''\<newline>| genre = pop\<newline>}}'')
     = Some [''pop'']
   \<and> extract_genres_from_infobox
       (''{{Infobox a '' @ ''<!--'' @ '' }} '' @ ''-->'' @ ''\<newline>| genre = pop\<newline>}}'')
     = None"
proof -
  have i1: "comment_interior '' x ''"
    by code_simp
  have i2: "comment_interior '' }} ''"
    by code_simp
  have a: "extract_genres_from_infobox
       (''{{Infobox a '' @ ''<!--'' @ '' x '' @ ''-->'' @ ''\<newline>| genre = pop\<newline>}}'')
     = Some [''pop'']"
    by code_simp
  have b: "extract_genres_from_infobox
       (''{{Infobox a '' @ ''<!--'' @ '' }} '' @ ''-->'' @ ''\<newline>| genre = pop\<newline>}}'')
     = None"
    by code_simp
  show ?thesis by (intro conjI i1 i2 a b)
qed
section \<open>Normalizing a label twice\<close>

lemma first_suffix_None:
  "first_suffix p s = None \<longleftrightarrow> (\<forall>t. suffix t s \<longrightarrow> \<not> p t)"
  by (induction s) (auto simp: suffix_Cons)

lemma not_contains_suffix: "\<not> contains lit s \<Longrightarrow> suffix t s \<Longrightarrow> \<not> prefix lit t"
  by (simp add: contains_def first_suffix_None)

lemma re_sub_no_match: "(\<And>t. suffix t s \<Longrightarrow> m t = None) \<Longrightarrow> re_sub m s = s"
proof (induction s)
  case Nil
  show ?case by simp
next
  case (Cons x s)
  have "m (x # s) = None" by (rule Cons.prems) simp
  moreover have "re_sub m s = s"
    by (rule Cons.IH) (simp add: Cons.prems suffix_Cons)
  ultimately show ?case by simp
qed

lemma re_sub_literal:
  assumes "\<And>t. m t \<noteq> None \<Longrightarrow> prefix lit t" and "\<not> contains lit s"
  shows "re_sub m s = s"
proof (rule re_sub_no_match)
  fix t assume "suffix t s"
  from not_contains_suffix [OF assms(2) this] assms(1) [of t] show "m t = None" by blast
qed

lemma wikilink_at_prefix: "wikilink_at t \<noteq> None \<Longrightarrow> prefix ''[['' t"
  by (auto simp: wikilink_at_def split: if_splits)

lemma ref_pair_at_prefix: "ref_pair_at t \<noteq> None \<Longrightarrow> prefix ''<ref'' t"
  by (auto simp: ref_pair_at_def split: if_splits)

lemma ref_self_at_prefix: "ref_self_at t \<noteq> None \<Longrightarrow> prefix ''<ref'' t"
  by (auto simp: ref_self_at_def split: if_splits)

lemma ref_open_at_prefix: "ref_open_at t \<noteq> None \<Longrightarrow> prefix ''<ref'' t"
  by (auto simp: ref_open_at_def split: if_splits)

lemma comment_at_prefix: "comment_at t \<noteq> None \<Longrightarrow> prefix ''<!--'' t"
  by (auto simp: comment_at_def split: if_splits)

lemma www_at_prefix: "www_at t \<noteq> None \<Longrightarrow> prefix ''www.'' t"
  by (auto simp: www_at_def split: if_splits)

lemma http_at_prefix:
  assumes "http_at t \<noteq> None"
  shows "prefix ''http://'' t \<or> prefix ''https://'' t"
proof -
  from assms have "prefix ''http'' t"
    by (auto simp: http_at_def split: if_splits)
  then obtain r where t: "t = ''http'' @ r" by (auto simp: prefix_def)
  show ?thesis
  proof (cases "prefix ''s'' r")
    case True
    then obtain q where r: "r = ''s'' @ q" by (auto simp: prefix_def)
    from assms have "prefix ''://'' q"
      unfolding t r by (auto simp: http_at_def Let_def split: if_splits)
    then obtain q' where "q = ''://'' @ q'" by (auto simp: prefix_def)
    with t r show ?thesis by simp
  next
    case False
    with assms have "prefix ''://'' r"
      unfolding t by (auto simp: http_at_def Let_def split: if_splits)
    then obtain q' where "r = ''://'' @ q'" by (auto simp: prefix_def)
    with t show ?thesis by simp
  qed
qed

lemma re_sub_http:
  assumes "\<not> contains ''http://'' s" and "\<not> contains ''https://'' s"
  shows "re_sub http_at s = s"
proof (rule re_sub_no_match)
  fix t assume "suffix t s"
  from not_contains_suffix [OF assms(1) this] not_contains_suffix [OF assms(2) this]
    http_at_prefix [of t]
  show "http_at t = None" by blast
qed

lemma re_sub_wikilink: "CHR ''['' \<notin> set s \<Longrightarrow> re_sub wikilink_at s = s"
proof (rule re_sub_no_match)
  fix t assume n: "CHR ''['' \<notin> set s" and "suffix t s"
  then have "CHR ''['' \<notin> set t" by (auto simp: suffix_def)
  then have "\<not> prefix ''[['' t" by (auto simp: prefix_def)
  with wikilink_at_prefix [of t] show "wikilink_at t = None" by blast
qed

lemma filter_none: "set s \<inter> A = {} \<Longrightarrow> filter (\<lambda>c. c \<notin> A) s = s"
  by (induction s) auto

lemma standardize_rock_fixed:
  assumes "set s \<inter> set markup_chars = {}" and "s \<noteq> ''rock n roll''" and "s \<noteq> ''rock & roll''"
  shows "standardize_rock s = s"
proof -
  from assms(1) have q: "CHR 0x27 \<notin> set s" by (auto simp: markup_chars_def)
  have "s \<noteq> ''rock '' @ [CHR 0x27] @ ''n'' @ [CHR 0x27] @ '' roll''"
    "s \<noteq> ''rock'' @ [CHR 0x27] @ ''n'' @ [CHR 0x27] @ ''roll''"
    "s \<noteq> ''rock n'' @ [CHR 0x27] @ '' roll''"
    using q by auto
  with assms(2,3) show ?thesis
    by (simp add: standardize_rock_def rock_variations_def)
qed

lemma space_is_space: "is_space CHR '' ''"
  by (simp add: is_space_def)

lemma split_chars_nonempty: "split_chars p s \<noteq> []"
  by (induction s) (auto split: list.splits)

lemma split_chars_word: "\<forall>c \<in> set w. \<not> p c \<Longrightarrow> split_chars p w = [w]"
  by (induction w) auto

lemma split_chars_append:
  "\<forall>c \<in> set w. \<not> p c \<Longrightarrow> p d \<Longrightarrow> split_chars p (w @ d # s) = w # split_chars p s"
  by (induction w) auto

lemma split_join:
  assumes "tidy ws" and "ws \<noteq> []"
  shows "split_chars is_space (join '' '' ws) = ws"
  using assms
proof (induction "'' ''" ws rule: join.induct)
  case 1
  then show ?case by simp
next
  case (2 w)
  then show ?case by (simp add: tidy_def split_chars_word)
next
  case (3 w v ws)
  from 3 have "split_chars is_space (join '' '' (v # ws)) = v # ws" by (simp add: tidy_def)
  moreover from 3 have "\<forall>c \<in> set w. \<not> is_space c" by (simp add: tidy_def)
  ultimately show ?case using split_chars_append [of w is_space "CHR '' ''"] space_is_space
    by simp
qed

lemma py_split_words: "tidy (py_split s)"
proof -
  have "\<forall>w \<in> set (split_chars p s). \<forall>c \<in> set w. \<not> p c" for p
  proof (induction s)
    case Nil
    show ?case by simp
  next
    case (Cons a s)
    then show ?case by (cases "split_chars p s") (auto split: if_splits)
  qed
  then show ?thesis by (auto simp: tidy_def py_split_def)
qed

lemma py_split_join: "tidy ws \<Longrightarrow> py_split (join '' '' ws) = ws"
proof (cases ws)
  case Nil
  then show ?thesis by (simp add: py_split_def)
next
  case (Cons w ws')
  assume t: "tidy ws"
  with Cons have "split_chars is_space (join '' '' ws) = ws" by (simp add: split_join)
  moreover from t have "filter (\<lambda>w. w \<noteq> []) ws = ws" by (auto simp: tidy_def)
  ultimately show ?thesis by (simp add: py_split_def)
qed

lemma hd_join: "tidy ws \<Longrightarrow> ws \<noteq> [] \<Longrightarrow> hd (join '' '' ws) = hd (hd ws)"
  by (induction "'' ''" ws rule: join.induct) (auto simp: tidy_def)

lemma join_empty: "tidy ws \<Longrightarrow> join '' '' ws = [] \<longleftrightarrow> ws = []"
  by (induction "'' ''" ws rule: join.induct) (auto simp: tidy_def)

lemma last_join: "tidy ws \<Longrightarrow> ws \<noteq> [] \<Longrightarrow> last (join '' '' ws) = last (last ws)"
proof (induction "'' ''" ws rule: join.induct)
  case 1
  then show ?case by simp
next
  case (2 w)
  show ?case by simp
next
  case (3 w v ws)
  from 3(2) have t: "tidy (v # ws)" by (simp add: tidy_def)
  with join_empty [of "v # ws"] have "join '' '' (v # ws) \<noteq> []" by simp
  with 3(1) [OF t] show ?case by simp
qed

lemma strip_clean:
  assumes "s \<noteq> [] \<Longrightarrow> \<not> is_space (hd s) \<and> \<not> is_space (last s)"
  shows "strip s = s"
proof (cases "s = []")
  case True
  then show ?thesis by (simp add: strip_def lstrip_def rstrip_def)
next
  case False
  with assms have h: "\<not> is_space (hd s)" and l: "\<not> is_space (last s)" by simp_all
  from False h have "lstrip s = s" by (cases s) (simp_all add: lstrip_def)
  moreover from False l have "rstrip s = s"
    by (cases s rule: rev_cases) (simp_all add: rstrip_def)
  ultimately show ?thesis by (simp add: strip_def)
qed

lemma strip_join: "tidy ws \<Longrightarrow> strip (join '' '' ws) = join '' '' ws"
proof (rule strip_clean)
  assume t: "tidy ws" and n: "join '' '' ws \<noteq> []"
  then have ne: "ws \<noteq> []" by auto
  then have "hd ws \<in> set ws" "last ws \<in> set ws" by simp_all
  with t have "hd ws \<noteq> []" "last ws \<noteq> []"
    "\<forall>c \<in> set (hd ws). \<not> is_space c" "\<forall>c \<in> set (last ws). \<not> is_space c"
    by (auto simp: tidy_def)
  then have "\<not> is_space (hd (hd ws))" "\<not> is_space (last (last ws))" by simp_all
  with hd_join [OF t ne] last_join [OF t ne]
  show "\<not> is_space (hd (join '' '' ws)) \<and> \<not> is_space (last (join '' '' ws))" by simp
qed


lemma normalize_genre_words: "\<exists>ws. tidy ws \<and> normalize_genre x = join '' '' ws"
proof -
  obtain g where "normalize_genre x = strip (join '' '' (py_split g))"
    unfolding normalize_genre_def Let_def by blast
  with strip_join [OF py_split_words [of g]] py_split_words [of g] show ?thesis by auto
qed

lemma rock_and_roll_chars: "set ''rock and roll'' \<inter> set markup_chars = {}"
  by (simp add: markup_chars_def)

lemma normalize_genre_chars: "set (normalize_genre x) \<inter> set markup_chars = {}"
proof -
  define g3 where
    "g3 = filter (\<lambda>c. c \<noteq> CHR ''['' \<and> c \<noteq> CHR '']'') (re_sub wikilink_at (strip (lower x)))"
  define g9 where
    "g9 = re_sub www_at (re_sub http_at (re_sub comment_at (re_sub ref_open_at
            (re_sub ref_self_at (re_sub ref_pair_at g3)))))"
  define g10 where
    "g10 = filter (\<lambda>c. c \<notin> set [CHR ''{'', CHR ''}'', CHR 0x22, CHR 0x27, CHR 0x60]) g9"
  define g11 where "g11 = standardize_rock g10"
  have y: "normalize_genre x = strip (join '' '' (py_split g11))"
    unfolding normalize_genre_def Let_def g11_def g10_def g9_def g3_def ..
  have 3: "CHR ''['' \<notin> set g3 \<and> CHR '']'' \<notin> set g3"
    unfolding g3_def by simp
  have "set g9 \<subseteq> set g3"
    unfolding g9_def
    by (intro subset_trans [OF re_sub_set [OF www_at_set]]
        subset_trans [OF re_sub_set [OF http_at_set]]
        subset_trans [OF re_sub_set [OF comment_at_set]]
        subset_trans [OF re_sub_set [OF ref_open_at_set]]
        subset_trans [OF re_sub_set [OF ref_self_at_set]]
        re_sub_set [OF ref_pair_at_set])
  with 3 have 9: "CHR ''['' \<notin> set g9 \<and> CHR '']'' \<notin> set g9" by blast
  have 10: "set g10 \<inter> set markup_chars = {}"
    unfolding g10_def markup_chars_def using 9 by auto
  have 11: "set g11 \<inter> set markup_chars = {}"
    using standardize_rock_cases [of g10] 10 rock_and_roll_chars unfolding g11_def by metis
  have "set (join '' '' (py_split g11)) \<subseteq> set '' '' \<union> set g11"
    unfolding py_split_def
    using set_join [of "'' ''" "filter (\<lambda>w. w \<noteq> []) (split_chars is_space g11)"]
      set_split_chars [of _ is_space g11] by auto
  moreover have "set '' '' \<inter> set markup_chars = {}" by (simp add: markup_chars_def)
  ultimately have "set (join '' '' (py_split g11)) \<inter> set markup_chars = {}"
    using 11 by blast
  with set_strip [of "join '' '' (py_split g11)"] show ?thesis unfolding y by blast
qed

lemma normalize_genre_fixed:
  assumes low: "lower y = y"
    and chars: "set y \<inter> set markup_chars = {}"
    and words: "tidy ws" "y = join '' '' ws"
    and settled: "settled_label y"
  shows "normalize_genre y = y"
proof -
  have s13: "strip y = y"
    unfolding words(2) by (rule strip_join [OF words(1)])
  have s1: "strip (lower y) = y"
    unfolding low by (rule s13)
  from chars have b: "CHR ''['' \<notin> set y" "CHR '']'' \<notin> set y"
    by (auto simp: markup_chars_def)
  have s2: "re_sub wikilink_at y = y" by (rule re_sub_wikilink [OF b(1)])
  from b have s3: "filter (\<lambda>c. c \<noteq> CHR ''['' \<and> c \<noteq> CHR '']'') y = y"
    by (induction y) auto
  from settled have n: "\<not> contains ''<ref'' y" "\<not> contains ''<!--'' y"
    "\<not> contains ''http://'' y" "\<not> contains ''https://'' y" "\<not> contains ''www.'' y"
    "y \<noteq> ''rock n roll''" "y \<noteq> ''rock & roll''"
    by (simp_all add: settled_label_def)
  have s4: "re_sub ref_pair_at y = y" by (rule re_sub_literal [OF ref_pair_at_prefix n(1)])
  have s5: "re_sub ref_self_at y = y" by (rule re_sub_literal [OF ref_self_at_prefix n(1)])
  have s6: "re_sub ref_open_at y = y" by (rule re_sub_literal [OF ref_open_at_prefix n(1)])
  have s7: "re_sub comment_at y = y" by (rule re_sub_literal [OF comment_at_prefix n(2)])
  have s8: "re_sub http_at y = y" by (rule re_sub_http [OF n(3) n(4)])
  have s9: "re_sub www_at y = y" by (rule re_sub_literal [OF www_at_prefix n(5)])
  from chars
  have s10: "filter (\<lambda>c. c \<notin> set [CHR ''{'', CHR ''}'', CHR 0x22, CHR 0x27, CHR 0x60]) y = y"
    by (induction y) (auto simp: markup_chars_def)
  have s11: "standardize_rock y = y" by (rule standardize_rock_fixed [OF chars n(6) n(7)])
  have s12: "join '' '' (py_split y) = y"
    unfolding words(2) py_split_join [OF words(1)] ..
  show ?thesis
    unfolding normalize_genre_def Let_def s1 s2 s3 s4 s5 s6 s7 s8 s9 s10 s11 s12 s13 ..
qed

text \<open>
  Claim C3, for settled results. When the normalized label holds none of the patterns
  that the normalizer acts on, normalizing it again leaves it unchanged.
\<close>

theorem normalize_genre_idempotent_when_settled:
  "settled_label (normalize_genre x) \<longrightarrow>
     normalize_genre (normalize_genre x) = normalize_genre x"
proof
  assume s: "settled_label (normalize_genre x)"
  obtain ws where ws: "tidy ws" "normalize_genre x = join '' '' ws"
    using normalize_genre_words by blast
  have low: "lower (normalize_genre x) = normalize_genre x"
    by (rule lower_fixed [OF normalize_genre_lower])
  show "normalize_genre (normalize_genre x) = normalize_genre x"
    by (rule normalize_genre_fixed [OF low normalize_genre_chars ws s])
qed


theorem normalize_genre_idempotent_when_settled_witness:
  "normalize_genre ''  [[Punk rock|Punk  Rock]] '' = ''punk rock''
   \<and> settled_label (normalize_genre ''  [[Punk rock|Punk  Rock]] '')
   \<and> normalize_genre (normalize_genre ''  [[Punk rock|Punk  Rock]] '')
     = normalize_genre ''  [[Punk rock|Punk  Rock]] ''"
proof -
  have n: "normalize_genre ''  [[Punk rock|Punk  Rock]] '' = ''punk rock''"
    by code_simp
  have s: "settled_label (normalize_genre ''  [[Punk rock|Punk  Rock]] '')"
    unfolding n by code_simp
  have i: "normalize_genre (normalize_genre ''  [[Punk rock|Punk  Rock]] '')
     = normalize_genre ''  [[Punk rock|Punk  Rock]] ''"
    by (rule normalize_genre_idempotent_when_settled [rule_format, OF s])
  show ?thesis by (intro conjI n s i)
qed

text \<open>
  Without that condition a second normalization can change the label. The comparison
  with the rock-and-roll variants is made before the whitespace is collapsed, so a variant
  written with a double space is only collapsed by the first run and replaced by the
  second; and deleting a quote can put together the opening of a comment that the second
  run then removes.
\<close>

theorem normalize_genre_not_idempotent:
  "normalize_genre ''rock  n roll'' = ''rock n roll''
   \<and> normalize_genre (normalize_genre ''rock  n roll'') = ''rock and roll''
   \<and> normalize_genre (normalize_genre ''rock  n roll'') \<noteq> normalize_genre ''rock  n roll''
   \<and> normalize_genre (''<'' @ [CHR 0x27] @ ''!-- a -->pop'') = ''<!-- a -->pop''
   \<and> normalize_genre (normalize_genre (''<'' @ [CHR 0x27] @ ''!-- a -->pop'')) = ''pop''"
proof -
  have a: "normalize_genre ''rock  n roll'' = ''rock n roll''"
    by code_simp
  have b: "normalize_genre (normalize_genre ''rock  n roll'') = ''rock and roll''"
    unfolding a by code_simp
  have c: "normalize_genre (normalize_genre ''rock  n roll'') \<noteq> normalize_genre ''rock  n roll''"
    using a b by simp
  have d: "normalize_genre (''<'' @ [CHR 0x27] @ ''!-- a -->pop'') = ''<!-- a -->pop''"
    by code_simp
  have e: "normalize_genre (normalize_genre (''<'' @ [CHR 0x27] @ ''!-- a -->pop'')) = ''pop''"
    unfolding d by code_simp
  show ?thesis by (intro conjI a b c d e)
qed
section \<open>Cleaning the network\<close>







































end
